theory Spec2Isabelle
  imports Complex_Main "HOL-Library.Log_Nat"
begin

text \<open>
  The \<open>instructions-view\<close> web component (\<open>web/src/instructions-view.ts\<close>): its
  \<open>render\<close> method, which shows the maneuver card while the trip state is navigating, and
  its distance formatter \<open>roundToNearestTen\<close>.
\<close>

section \<open>ECMAScript Number values\<close>

text \<open>
  The component is TypeScript; \<open>meters / 10\<close>, \<open>Math.round\<close> and \<open>* 10\<close> are the
  ECMAScript operations on Number values, that is IEEE 754 binary64 with
  round-to-nearest, ties-to-even. A finite non-zero Number is modelled by the real
  number it denotes; \<open>Fin 0\<close> is \<open>+0\<close> and \<open>NegZero\<close> is \<open>-0\<close>.
\<close>

datatype number = NaN | PosInf | NegInf | NegZero | Fin real

text \<open>\<open>ilog2 q\<close> is the integer \<open>e\<close> with \<open>2\<^sup>e \<le> q < 2\<^sup>e\<^sup>+\<^sup>1\<close>, for \<open>q > 0\<close>.\<close>

definition ilog2 :: "real \<Rightarrow> int" where
  "ilog2 q = (if 1 \<le> q then bitlen \<lfloor>q\<rfloor> - 1 else - bitlen (\<lceil>1 / q\<rceil> - 1))"

text \<open>The binary64 exponent of a real: subnormals share the exponent \<open>-1022\<close>.\<close>

definition expo :: "real \<Rightarrow> int" where
  "expo q = (if \<bar>q\<bar> < 2 powi (-1022) then -1022 else ilog2 \<bar>q\<bar>)"

text \<open>The spacing of the binary64 values around \<open>q\<close>: 53 significant bits.\<close>

definition ulp :: "real \<Rightarrow> real" where
  "ulp q = 2 powi (expo q - 52)"

text \<open>A real is (the value of) a finite Number when it is on the binary64 grid.\<close>

definition is_double :: "real \<Rightarrow> bool" where
  "is_double q \<longleftrightarrow> \<bar>q\<bar> < 2 ^ 1024 \<and> of_int \<lfloor>q / ulp q\<rfloor> = q / ulp q"

text \<open>Rounding to the nearest integer, ties to the even one.\<close>

definition rne :: "real \<Rightarrow> int" where
  "rne q = (let f = \<lfloor>q\<rfloor>; d = q - of_int f in
            if d < 1 / 2 then f else if 1 / 2 < d then f + 1
            else if even f then f else f + 1)"

text \<open>
  The Number value for a real (a mathematical value of the ECMAScript specification): the
  nearest binary64 value, an infinity when the rounded magnitude reaches \<open>2\<^sup>1\<^sup>0\<^sup>2\<^sup>4\<close>,
  and \<open>-0\<close> when a negative real rounds to zero.
\<close>

definition fl :: "real \<Rightarrow> number" where
  "fl q = (let r = of_int (rne (q / ulp q)) * ulp q in
           if 2 ^ 1024 \<le> r then PosInf
           else if r \<le> - (2 ^ 1024) then NegInf
           else if r = 0 \<and> q < 0 then NegZero
           else Fin r)"

fun negative :: "number \<Rightarrow> bool" where
  "negative NegInf = True"
| "negative NegZero = True"
| "negative (Fin q) = (q < 0)"
| "negative _ = False"

fun is_zero :: "number \<Rightarrow> bool" where
  "is_zero NegZero = True"
| "is_zero (Fin q) = (q = 0)"
| "is_zero _ = False"

fun is_inf :: "number \<Rightarrow> bool" where
  "is_inf PosInf = True"
| "is_inf NegInf = True"
| "is_inf _ = False"

fun mv :: "number \<Rightarrow> real" where
  "mv (Fin q) = q"
| "mv _ = 0"

definition signed_zero :: "bool \<Rightarrow> number" where
  "signed_zero neg = (if neg then NegZero else Fin 0)"

definition signed_inf :: "bool \<Rightarrow> number" where
  "signed_inf neg = (if neg then NegInf else PosInf)"

text \<open>\<open>x / y\<close> on Numbers (Number::divide).\<close>

definition js_divide :: "number \<Rightarrow> number \<Rightarrow> number" where
  "js_divide x y =
     (if x = NaN \<or> y = NaN then NaN
      else if is_inf x then
        (if is_inf y then NaN else signed_inf (negative x \<noteq> negative y))
      else if is_inf y then signed_zero (negative x \<noteq> negative y)
      else if is_zero y then
        (if is_zero x then NaN else signed_inf (negative x \<noteq> negative y))
      else if is_zero x then signed_zero (negative x \<noteq> negative y)
      else fl (mv x / mv y))"

text \<open>\<open>x * y\<close> on Numbers (Number::multiply).\<close>

definition js_multiply :: "number \<Rightarrow> number \<Rightarrow> number" where
  "js_multiply x y =
     (if x = NaN \<or> y = NaN then NaN
      else if is_inf x \<or> is_inf y then
        (if is_zero x \<or> is_zero y then NaN else signed_inf (negative x \<noteq> negative y))
      else if is_zero x \<or> is_zero y then signed_zero (negative x \<noteq> negative y)
      else fl (mv x * mv y))"

text \<open>
  \<open>Math.round\<close>: the integral Number closest to the argument, the one closer to
  \<open>+\<infinity>\<close> on a tie; \<open>-0\<close> for an argument in \<open>[-0.5, 0)\<close>; \<open>NaN\<close>, the infinities and the
  zeros are returned as they are.
\<close>

fun Math_round :: "number \<Rightarrow> number" where
  "Math_round (Fin q) =
     (let k = \<lfloor>q + 1 / 2\<rfloor> in if k = 0 \<and> q < 0 then NegZero else Fin (of_int k))"
| "Math_round x = x"

text \<open>\<open>x == y\<close> on Numbers (Number::equal): \<open>NaN\<close> equals nothing, the zeros are equal.\<close>

definition js_equal :: "number \<Rightarrow> number \<Rightarrow> bool" where
  "js_equal x y =
     (if x = NaN \<or> y = NaN then False
      else if is_zero x \<and> is_zero y then True
      else x = y)"

text \<open>\<open>x < y\<close> on Numbers (Number::lessThan, with \<open>undefined\<close> read as false).\<close>

fun js_less :: "number \<Rightarrow> number \<Rightarrow> bool" where
  "js_less NaN _ = False"
| "js_less _ NaN = False"
| "js_less PosInf _ = False"
| "js_less _ PosInf = True"
| "js_less _ NegInf = False"
| "js_less NegInf _ = True"
| "js_less x y = (mv x < mv y)"

section \<open>The distance formatter\<close>

text \<open>
  \<^verbatim>\<open>private roundToNearestTen(meters: number) { return Math.round(meters / 10) * 10; }\<close>
\<close>

definition roundToNearestTen :: "number \<Rightarrow> number" where
  "roundToNearestTen meters = js_multiply (Math_round (js_divide meters (Fin 10))) (Fin 10)"

text \<open>A Number is a multiple of ten when it is finite and ten times an integer.\<close>

fun multiple_of_ten :: "number \<Rightarrow> bool" where
  "multiple_of_ten (Fin q) = (of_int \<lfloor>q / 10\<rfloor> * 10 = q)"
| "multiple_of_ten NegZero = True"
| "multiple_of_ten _ = False"

section \<open>ECMAScript values and the render method\<close>

text \<open>
  \<open>tripState\<close> is declared \<open>any\<close>. The values modelled are the primitive values and plain
  objects, an object being the list of its own properties (the first binding of a key is
  the one that counts). Functions, arrays, symbols and accessor properties are left out.
\<close>

datatype jsvalue =
    Undefined
  | Null
  | Boolean bool
  | Number number
  | String string
  | Object "(string \<times> jsvalue) list"

datatype error = TypeError

text \<open>ToBoolean: the truthiness of a value.\<close>

fun ToBoolean :: "jsvalue \<Rightarrow> bool" where
  "ToBoolean Undefined = False"
| "ToBoolean Null = False"
| "ToBoolean (Boolean b) = b"
| "ToBoolean (Number n) = (n \<noteq> NaN \<and> \<not> is_zero n)"
| "ToBoolean (String s) = (s \<noteq> [])"
| "ToBoolean (Object fs) = True"

text \<open>
  Member access \<open>v.k\<close>, for the six property names that \<open>render\<close> reads. None of them is a
  property of \<open>Object.prototype\<close>, \<open>String.prototype\<close>, \<open>Number.prototype\<close> or
  \<open>Boolean.prototype\<close>, so the access gives the own property or \<open>undefined\<close>; on
  \<open>undefined\<close> and \<open>null\<close> it throws a TypeError.
\<close>

fun get :: "jsvalue \<Rightarrow> string \<Rightarrow> error + jsvalue" where
  "get Undefined k = Inl TypeError"
| "get Null k = Inl TypeError"
| "get (Object fs) k = Inr (case map_of fs k of Some v \<Rightarrow> v | None \<Rightarrow> Undefined)"
| "get v k = Inr Undefined"

text \<open>Optional chaining \<open>v?.k\<close>: \<open>undefined\<close> on \<open>undefined\<close> and \<open>null\<close>.\<close>

fun optional_get :: "jsvalue \<Rightarrow> string \<Rightarrow> jsvalue" where
  "optional_get Undefined k = Undefined"
| "optional_get Null k = Undefined"
| "optional_get (Object fs) k = (case map_of fs k of Some v \<Rightarrow> v | None \<Rightarrow> Undefined)"
| "optional_get v k = Undefined"

text \<open>
  ToNumber, applied by \<open>/\<close> to its left operand. The grammar of numeric strings
  (StringToNumber) is not modelled: it is the parameter \<open>S\<close>, and every theorem holds for
  every \<open>S\<close>. A plain object is converted through \<open>valueOf\<close> and \<open>toString\<close>: an own
  property of these names is not callable here and is skipped, the inherited
  \<open>valueOf\<close> returns the object itself, and the inherited \<open>toString\<close> returns
  \<open>[object Object]\<close>; with an own \<open>toString\<close> no method is left and a TypeError is thrown.
\<close>

fun ToNumber :: "(string \<Rightarrow> number) \<Rightarrow> jsvalue \<Rightarrow> error + number" where
  "ToNumber S Undefined = Inr NaN"
| "ToNumber S Null = Inr (Fin 0)"
| "ToNumber S (Boolean b) = Inr (if b then Fin 1 else Fin 0)"
| "ToNumber S (Number n) = Inr n"
| "ToNumber S (String s) = Inr (S s)"
| "ToNumber S (Object fs) =
     (if ''toString'' \<in> fst ` set fs then Inl TypeError else Inr (S ''[object Object]''))"

text \<open>
  The template that \<open>render\<close> returns: the value bound to the \<open>visualInstruction\<close>
  property of the \<open>maneuver-image\<close> element, and the values of the two paragraphs (the
  second one is followed by the letter \<open>m\<close>).
\<close>

record view_card =
  maneuver_image :: jsvalue
  instruction_text :: jsvalue
  rounded_distance :: number

text \<open>
  \<^verbatim>\<open>
  render() {
    if (this.tripState?.Navigating) {
      return html`
        <div id="view-card">
          <maneuver-image .visualInstruction=${this.tripState.Navigating.visualInstruction}></maneuver-image>
          <p>${this.tripState.Navigating.visualInstruction.primaryContent.text}</p>
          <p>${this.roundToNearestTen(this.tripState.Navigating.progress.distanceToNextManeuver)}m</p>
        </div>
      `;
    }
  }
  \<close>
  The result \<open>Inr None\<close> is the method returning nothing (\<open>undefined\<close>): no template, no
  \<open>maneuver-image\<close> element. \<open>Inl TypeError\<close> is a member access on \<open>undefined\<close> or
  \<open>null\<close>, or a failed conversion of the distance; \<open>and_then\<close> stops at the first
  one, as the exception does.
\<close>

definition and_then :: "error + 'a \<Rightarrow> ('a \<Rightarrow> error + 'b) \<Rightarrow> error + 'b" where
  "and_then r f = (case r of Inl e \<Rightarrow> Inl e | Inr v \<Rightarrow> f v)"

definition render :: "(string \<Rightarrow> number) \<Rightarrow> jsvalue \<Rightarrow> error + view_card option" where
  "render S tripState =
     (if ToBoolean (optional_get tripState ''Navigating'') then
        and_then (get tripState ''Navigating'') (\<lambda>nav.
        and_then (get nav ''visualInstruction'') (\<lambda>vi.
        and_then (get vi ''primaryContent'') (\<lambda>pc.
        and_then (get pc ''text'') (\<lambda>txt.
        and_then (get nav ''progress'') (\<lambda>progress.
        and_then (get progress ''distanceToNextManeuver'') (\<lambda>d.
        and_then (ToNumber S d) (\<lambda>meters.
          Inr (Some \<lparr>maneuver_image = vi, instruction_text = txt,
                     rounded_distance = roundToNearestTen meters\<rparr>))))))))
      else Inr None)"

text \<open>The input has an own property of the given name.\<close>

fun has_property :: "jsvalue \<Rightarrow> string \<Rightarrow> bool" where
  "has_property (Object fs) k = (k \<in> fst ` set fs)"
| "has_property v k = False"

text \<open>A chain of member accesses \<open>v.k\<^sub>1.k\<^sub>2\<dots>\<close>, failing where the first access fails.\<close>

fun path :: "jsvalue \<Rightarrow> string list \<Rightarrow> error + jsvalue" where
  "path v [] = Inr v"
| "path v (k # ks) = and_then (get v k) (\<lambda>w. path w ks)"

section \<open>Properties of the binary64 model\<close>

subsection \<open>Exponent and spacing\<close>

text \<open>
  \<open>ilog2\<close> is the integer logarithm, so the exponent of a normal real brackets it between
  two consecutive powers of two.
\<close>

lemma powi_nat: "0 \<le> e \<Longrightarrow> (2::real) powi e = 2 ^ nat e"
  by (simp add: power_int_def)

lemma powi_neg: "0 \<le> e \<Longrightarrow> (2::real) powi (- e) = 1 / 2 ^ nat e"
  by (simp add: power_int_def field_simps)

lemma powi_less_imp: "(2::real) powi a < 2 powi b \<Longrightarrow> a < b"
  using power_int_increasing [of b a "2::real"] by (cases "a < b") simp_all

lemma int_le_pow2: "(n::int) \<le> 2 ^ k \<Longrightarrow> real_of_int n \<le> 2 ^ k"
  by (metis of_int_le_iff of_int_numeral of_int_power)

lemma pow2_le_int: "2 ^ k \<le> (n::int) \<Longrightarrow> 2 ^ k \<le> real_of_int n"
  by (metis of_int_le_iff of_int_numeral of_int_power)

lemma bitlen_pos: "0 < n \<Longrightarrow> 1 \<le> bitlen n"
  by (simp add: bitlen_alt_def)

lemma ilog2_bounds:
  assumes "0 < q"
  shows "2 powi (ilog2 q) \<le> q \<and> q < 2 powi (ilog2 q + 1)"
proof (cases "1 \<le> q")
  case True
  define n where "n = \<lfloor>q\<rfloor>"
  have n: "1 \<le> n" using True by (simp add: n_def)
  define e where "e = bitlen n - 1"
  have e: "0 \<le> e" using bitlen_pos [of n] n by (simp add: e_def)
  have b: "2 ^ nat e \<le> n" "n < 2 ^ nat (e + 1)"
    using bitlen_bounds [of n] n by (simp_all add: e_def)
  have "2 ^ nat e \<le> real_of_int n" using b(1) by (rule pow2_le_int)
  also have "\<dots> \<le> q" by (simp add: n_def)
  finally have lo: "2 powi e \<le> q" using e by (simp add: powi_nat)
  have "n + 1 \<le> 2 ^ nat (e + 1)" using b(2) by simp
  then have "real_of_int (n + 1) \<le> 2 ^ nat (e + 1)" by (rule int_le_pow2)
  moreover have "q < real_of_int (n + 1)" unfolding n_def by linarith
  ultimately have hi: "q < 2 powi (e + 1)" using e by (simp add: powi_nat)
  have "ilog2 q = e" using True by (simp add: ilog2_def e_def n_def)
  with lo hi show ?thesis by simp
next
  case False
  then have q1: "q < 1" by simp
  define c where "c = \<lceil>1 / q\<rceil>"
  have "1 < 1 / q" using assms q1 by simp
  then have c: "2 \<le> c" unfolding c_def by linarith
  define b where "b = bitlen (c - 1)"
  have b: "1 \<le> b" using bitlen_pos [of "c - 1"] c by (simp add: b_def)
  have bb: "2 ^ nat (b - 1) \<le> c - 1" "c - 1 < 2 ^ nat b"
    using bitlen_bounds [of "c - 1"] c by (simp_all add: b_def)
  have c1: "real_of_int (c - 1) < 1 / q" "1 / q \<le> real_of_int c"
    unfolding c_def by linarith+
  have "c \<le> 2 ^ nat b" using bb(2) by simp
  then have "real_of_int c \<le> 2 ^ nat b" by (rule int_le_pow2)
  with c1(2) have "1 / q \<le> 2 ^ nat b" by linarith
  then have "1 / 2 ^ nat b \<le> q" using assms by (simp add: field_simps)
  then have lo: "2 powi (- b) \<le> q" using b by (simp add: powi_neg)
  have "2 ^ nat (b - 1) \<le> real_of_int (c - 1)" using bb(1) by (rule pow2_le_int)
  with c1(1) have "2 ^ nat (b - 1) < 1 / q" by linarith
  then have "q < 1 / 2 ^ nat (b - 1)" using assms by (simp add: field_simps)
  then have hi: "q < 2 powi (- b + 1)" using b powi_neg [of "b - 1"] by simp
  have "ilog2 q = - b" using False by (simp add: ilog2_def b_def c_def)
  with lo hi show ?thesis by simp
qed

lemma expo_ge: "- 1022 \<le> expo q"
proof (cases "\<bar>q\<bar> < 2 powi (- 1022)")
  case True
  then show ?thesis by (simp add: expo_def)
next
  case False
  then have a: "2 powi (- 1022) \<le> \<bar>q\<bar>" by simp
  then have "0 < \<bar>q\<bar>" by (smt (verit) zero_less_power_int)
  from ilog2_bounds [OF this] a have "(2::real) powi (- 1022) < 2 powi (ilog2 \<bar>q\<bar> + 1)" by linarith
  then have "- 1022 < ilog2 \<bar>q\<bar> + 1" by (rule powi_less_imp)
  then show ?thesis using False by (simp add: expo_def)
qed

lemma expo_bounds:
  assumes "2 powi (- 1022) \<le> \<bar>q\<bar>"
  shows "2 powi (expo q) \<le> \<bar>q\<bar>" "\<bar>q\<bar> < 2 powi (expo q + 1)"
proof -
  have "0 < \<bar>q\<bar>" using assms by (smt (verit) zero_less_power_int)
  from ilog2_bounds [OF this] assms show "2 powi (expo q) \<le> \<bar>q\<bar>" "\<bar>q\<bar> < 2 powi (expo q + 1)"
    by (simp_all add: expo_def)
qed

lemma expo_le:
  assumes "\<bar>q\<bar> < 2 powi (E + 1)" "- 1022 \<le> E"
  shows "expo q \<le> E"
proof (cases "\<bar>q\<bar> < 2 powi (- 1022)")
  case True
  then show ?thesis using assms(2) by (simp add: expo_def)
next
  case False
  then have "2 powi (expo q) \<le> \<bar>q\<bar>" using expo_bounds(1) [of q] by simp
  with assms(1) have "(2::real) powi (expo q) < 2 powi (E + 1)" by linarith
  then have "expo q < E + 1" by (rule powi_less_imp)
  then show ?thesis by simp
qed

lemma expo_lower:
  assumes "2 powi E \<le> \<bar>q\<bar>"
  shows "E \<le> expo q"
proof (cases "\<bar>q\<bar> < 2 powi (- 1022)")
  case True
  with assms have "(2::real) powi E < 2 powi (- 1022)" by linarith
  then have "E < - 1022" by (rule powi_less_imp)
  then show ?thesis using True by (simp add: expo_def)
next
  case False
  then have "\<bar>q\<bar> < 2 powi (expo q + 1)" using expo_bounds(2) [of q] by simp
  with assms have "(2::real) powi E < 2 powi (expo q + 1)" by linarith
  then have "E < expo q + 1" by (rule powi_less_imp)
  then show ?thesis by simp
qed

subsection \<open>Rounding to the grid\<close>

text \<open>
  The rounded value is at most half a spacing away, and it never crosses a point of the
  grid of \<open>x\<close>.
\<close>

lemma ulp_pos: "0 < ulp q"
  by (simp add: ulp_def)

lemma rne_close: "\<bar>real_of_int (rne y) - y\<bar> \<le> 1 / 2"
  unfolding rne_def Let_def by (auto; linarith)

lemma rne_of_int: "rne (real_of_int n) = n"
  by (simp add: rne_def)

lemma inv_ulp_grid: "E \<le> 52 \<Longrightarrow> 1 / (2::real) powi (E - 52) = 2 ^ nat (52 - E)"
  using powi_neg [of "52 - E"] by simp

lemma powi_mono: "a \<le> b \<Longrightarrow> (2::real) powi a \<le> 2 powi b"
  by (rule power_int_increasing) simp_all

lemma rounded_close:
  fixes x :: real
  defines "r \<equiv> real_of_int (rne (x / ulp x)) * ulp x"
  shows "\<bar>r - x\<bar> \<le> ulp x / 2"
proof -
  have u: "0 < ulp x" by (rule ulp_pos)
  have "r - x = (real_of_int (rne (x / ulp x)) - x / ulp x) * ulp x"
    using u by (simp add: r_def field_simps)
  then have "\<bar>r - x\<bar> = \<bar>real_of_int (rne (x / ulp x)) - x / ulp x\<bar> * ulp x"
    using u by (simp add: abs_mult)
  also have "\<dots> \<le> (1 / 2) * ulp x"
    using rne_close [of "x / ulp x"] u by (intro mult_right_mono) simp_all
  finally show ?thesis by simp
qed

lemma rounded_ge_grid:
  fixes x :: real and N :: int
  assumes "real_of_int N * ulp x \<le> x"
  shows "real_of_int N * ulp x \<le> real_of_int (rne (x / ulp x)) * ulp x"
proof -
  have u: "0 < ulp x" by (rule ulp_pos)
  have "real_of_int N \<le> x / ulp x" using assms u by (simp add: field_simps)
  with rne_close [of "x / ulp x"] have "real_of_int N - 1 / 2 \<le> real_of_int (rne (x / ulp x))"
    by linarith
  then have "N \<le> rne (x / ulp x)" by linarith
  then have "real_of_int N \<le> real_of_int (rne (x / ulp x))" by simp
  then show ?thesis using u by (intro mult_right_mono) simp_all
qed

lemma rounded_le_grid:
  fixes x :: real and N :: int
  assumes "x \<le> real_of_int N * ulp x"
  shows "real_of_int (rne (x / ulp x)) * ulp x \<le> real_of_int N * ulp x"
proof -
  have u: "0 < ulp x" by (rule ulp_pos)
  have "x / ulp x \<le> real_of_int N" using assms u by (simp add: field_simps)
  with rne_close [of "x / ulp x"] have "real_of_int (rne (x / ulp x)) \<le> real_of_int N + 1 / 2"
    by linarith
  then have "rne (x / ulp x) \<le> N" by linarith
  then have "real_of_int (rne (x / ulp x)) \<le> real_of_int N" by simp
  then show ?thesis using u by (intro mult_right_mono) simp_all
qed

text \<open>
  The key step: for a Number \<open>m\<close> below \<open>2\<^sup>5\<^sup>3\<close>, rounding \<open>m / 10\<close> to binary64 does not
  move it across a half-integer, so \<open>Math.round\<close> sees the same integer as for the exact
  quotient. Below \<open>K - 1/2\<close> it cannot go because that point is on the grid; up to
  \<open>K + 1/2\<close> it cannot go because \<open>m\<close> and \<open>10 K + 5\<close> are both on the grid of \<open>m\<close>,
  which is at least eight times coarser than the grid of \<open>m / 10\<close>.
\<close>

lemma tenth_rounds_like_real:
  fixes m :: real
  assumes dbl: "is_double m" and small: "\<bar>m\<bar> < 2 ^ 53"
  defines "x \<equiv> m / 10"
  defines "K \<equiv> \<lfloor>x + 1 / 2\<rfloor>"
  defines "r \<equiv> real_of_int (rne (x / ulp x)) * ulp x"
  shows "real_of_int K - 1 / 2 \<le> r \<and> r < real_of_int K + 1 / 2"
proof -
  have u: "0 < ulp x" by (rule ulp_pos)
  have K: "real_of_int K - 1 / 2 \<le> x" "x < real_of_int K + 1 / 2"
    unfolding K_def by linarith+
  have "\<bar>x\<bar> < 2 ^ 50" using small by (simp add: x_def)
  then have "\<bar>x\<bar> < 2 powi (49 + 1)" by simp
  then have ex: "expo x \<le> 49" by (rule expo_le) simp
  define j where "j = nat (51 - expo x)"
  have "1 / ulp x = 2 ^ nat (52 - expo x)" unfolding ulp_def using ex by (intro inv_ulp_grid) simp
  also have "nat (52 - expo x) = Suc j" using ex by (simp add: j_def)
  finally have iu: "1 / ulp x = 2 * 2 ^ j" by simp
  then have ueq: "ulp x = 1 / (2 * 2 ^ j)" by (metis divide_divide_eq_right div_by_1 mult_1)
  define N where "N = (2 * K - 1) * 2 ^ j"
  have Ngrid: "real_of_int N * ulp x = real_of_int K - 1 / 2"
    by (simp add: N_def ueq field_simps)
  have lower: "real_of_int K - 1 / 2 \<le> r"
    using rounded_ge_grid [of N x] K(1) Ngrid by (simp add: r_def)
  have gap: "ulp x / 2 < real_of_int K + 1 / 2 - x"
  proof (cases "\<bar>m\<bar> < 1")
    case True
    then have "\<bar>x\<bar> < 1 / 10" by (simp add: x_def)
    then have "K = 0" unfolding K_def by linarith
    moreover have "ulp x \<le> 2 powi (- 3)" unfolding ulp_def using ex by (intro powi_mono) simp
    ultimately show ?thesis using \<open>\<bar>x\<bar> < 1 / 10\<close> by simp
  next
    case False
    define e where "e = expo m"
    have "2 powi 0 \<le> \<bar>m\<bar>" using False by simp
    then have e0: "0 \<le> e" unfolding e_def by (rule expo_lower)
    have "\<bar>m\<bar> < 2 powi (52 + 1)" using small by simp
    then have e52: "e \<le> 52" unfolding e_def by (rule expo_le) simp
    define P where "P = (2::int) ^ nat (52 - e)"
    have iw: "1 / ulp m = real_of_int P"
      unfolding ulp_def P_def e_def [symmetric] using e52 inv_ulp_grid [of e] by simp
    have w: "0 < ulp m" by (rule ulp_pos)
    define M where "M = \<lfloor>m / ulp m\<rfloor>"
    have "real_of_int M = m / ulp m" using dbl by (simp add: is_double_def M_def)
    then have mM: "m = real_of_int M * ulp m" using w by (simp add: field_simps)
    define D where "D = (10 * K + 5) * P - M"
    have "real_of_int D * ulp m = (10 * real_of_int K + 5) * (real_of_int P * ulp m) - real_of_int M * ulp m"
      by (simp add: D_def algebra_simps)
    also have "real_of_int P * ulp m = 1" using iw w by (simp add: field_simps)
    finally have Dm: "real_of_int D * ulp m = 10 * real_of_int K + 5 - m" using mM by simp
    have "0 < 10 * real_of_int K + 5 - m" using K(2) by (simp add: x_def)
    with Dm have "0 < real_of_int D * ulp m" by simp
    then have "0 < real_of_int D" using w by (simp add: zero_less_mult_iff)
    then have "1 \<le> real_of_int D" by simp
    then have "1 * ulp m \<le> real_of_int D * ulp m" using w by (intro mult_right_mono) simp_all
    with Dm have far: "ulp m \<le> 10 * real_of_int K + 5 - m" by simp
    have "2 powi (- 1022) \<le> \<bar>m\<bar>"
      using False powi_mono [of "- 1022" 0] by simp
    then have "\<bar>m\<bar> < 2 powi (e + 1)" unfolding e_def by (rule expo_bounds(2))
    then have "\<bar>x\<bar> < 2 powi (e + 1) / 8" by (simp add: x_def)
    also have "2 powi (e + 1) / 8 = (2::real) powi (e - 3 + 1)"
      by (simp add: power_int_diff power_int_add)
    finally have "expo x \<le> e - 3" using e0 by (intro expo_le) simp_all
    then have "ulp x \<le> 2 powi (e - 3 - 52)" unfolding ulp_def by (intro powi_mono) simp
    also have "(2::real) powi (e - 3 - 52) = ulp m / 8"
      by (simp add: ulp_def e_def power_int_diff)
    finally have "ulp x \<le> ulp m / 8" .
    with far w show ?thesis by (simp add: x_def)
  qed
  have "r \<le> x + ulp x / 2" using rounded_close [of x] unfolding r_def by linarith
  with gap have "r < real_of_int K + 1 / 2" by linarith
  with lower show ?thesis by simp
qed

text \<open>Integers below \<open>2\<^sup>5\<^sup>3\<close> are Numbers, and rounding leaves them as they are.\<close>

lemma fl_of_int:
  assumes "n \<noteq> 0" "\<bar>n\<bar> < 2 ^ 53"
  shows "fl (real_of_int n) = Fin (real_of_int n)"
proof -
  define q where "q = real_of_int n"
  have "1 \<le> \<bar>n\<bar>" using assms(1) by simp
  then have "1 \<le> \<bar>q\<bar>" unfolding q_def by linarith
  then have "2 powi 0 \<le> \<bar>q\<bar>" by simp
  then have e0: "0 \<le> expo q" by (rule expo_lower)
  have "real_of_int \<bar>n\<bar> < 2 ^ 53" using assms(2) by (metis of_int_less_iff of_int_numeral of_int_power)
  then have q53: "\<bar>q\<bar> < 2 ^ 53" by (simp add: q_def)
  then have "\<bar>q\<bar> < 2 powi (52 + 1)" by simp
  then have e52: "expo q \<le> 52" by (rule expo_le) simp
  have u: "0 < ulp q" by (rule ulp_pos)
  have iu: "1 / ulp q = 2 ^ nat (52 - expo q)" unfolding ulp_def using e52 by (rule inv_ulp_grid)
  have "q / ulp q = q * (1 / ulp q)" by simp
  also have "\<dots> = q * 2 ^ nat (52 - expo q)" by (simp only: iu)
  also have "\<dots> = real_of_int (n * 2 ^ nat (52 - expo q))" by (simp add: q_def)
  finally have g: "q / ulp q = real_of_int (n * 2 ^ nat (52 - expo q))" .
  have "real_of_int (rne (q / ulp q)) = q / ulp q" by (simp only: g rne_of_int)
  then have r: "real_of_int (rne (q / ulp q)) * ulp q = q" using u by simp
  have "q \<noteq> 0" using assms(1) by (simp add: q_def)
  moreover have "\<not> 2 ^ 1024 \<le> q" "\<not> q \<le> - (2 ^ 1024)" using q53 by simp_all
  ultimately show ?thesis unfolding q_def [symmetric] fl_def Let_def r by simp
qed

subsection \<open>The formatter below \<open>2\<^sup>5\<^sup>3\<close>\<close>

text \<open>
  Below \<open>2\<^sup>5\<^sup>3\<close> the formatter computes \<open>10 * \<lfloor>m / 10 + 1/2\<rfloor>\<close> exactly, with \<open>-0\<close> for a
  negative input that rounds to zero.
\<close>

lemma roundToNearestTen_small:
  assumes dbl: "is_double m" and small: "\<bar>m\<bar> < 2 ^ 53"
  shows "roundToNearestTen (Fin m) =
           (if \<lfloor>m / 10 + 1 / 2\<rfloor> = 0 \<and> m < 0 then NegZero
            else Fin (10 * real_of_int \<lfloor>m / 10 + 1 / 2\<rfloor>))"
proof (cases "m = 0")
  case True
  then show ?thesis
    by (simp add: roundToNearestTen_def js_divide_def js_multiply_def signed_zero_def)
next
  case False
  define x where "x = m / 10"
  define K where "K = \<lfloor>x + 1 / 2\<rfloor>"
  define r where "r = real_of_int (rne (x / ulp x)) * ulp x"
  have rb: "real_of_int K - 1 / 2 \<le> r" "r < real_of_int K + 1 / 2"
    using tenth_rounds_like_real [OF dbl small] by (simp_all add: r_def K_def x_def)
  have Kx: "real_of_int K \<le> x + 1 / 2" "x + 1 / 2 < real_of_int K + 1"
    unfolding K_def by linarith+
  have "real_of_int K < 900719925474100" "- 900719925474100 < real_of_int K"
    using Kx small by (simp_all add: x_def)
  then have Kb: "K < 900719925474100" "- 900719925474100 < K" by simp_all
  have rK: "\<lfloor>r + 1 / 2\<rfloor> = K" using rb by linarith
  have rsmall: "\<not> 2 ^ 1024 \<le> r" "\<not> r \<le> - (2 ^ 1024)"
    using rb \<open>real_of_int K < 900719925474100\<close> \<open>- 900719925474100 < real_of_int K\<close> by simp_all
  have flx: "fl x = (if r = 0 \<and> x < 0 then NegZero else Fin r)"
    unfolding fl_def Let_def r_def [symmetric] using rsmall by simp
  have div: "js_divide (Fin m) (Fin 10) = fl x"
    using False by (simp add: js_divide_def x_def)
  have neg: "r \<le> 0" if "m < 0"
    using rounded_le_grid [of x 0] that by (simp add: r_def x_def)
  have pos: "0 \<le> r" if "0 < m"
    using rounded_ge_grid [of 0 x] that by (simp add: r_def x_def)
  have rnd: "Math_round (fl x) = (if K = 0 \<and> m < 0 then NegZero else Fin (real_of_int K))"
  proof (cases "r = 0 \<and> x < 0")
    case True
    then have "K = 0" using rb by linarith
    moreover have "m < 0" using True by (simp add: x_def)
    moreover have "fl x = NegZero" using True by (simp add: flx)
    ultimately show ?thesis by simp
  next
    case nz: False
    have "r < 0 \<longleftrightarrow> m < 0"
    proof (cases "m < 0")
      case True
      with nz neg have "r < 0" by (auto simp add: x_def)
      with True show ?thesis by simp
    next
      case False
      with \<open>m \<noteq> 0\<close> pos have "0 \<le> r" by simp
      with False show ?thesis by simp
    qed
    moreover have "fl x = Fin r" using nz by (auto simp add: flx)
    ultimately show ?thesis by (simp add: rK)
  qed
  have "js_multiply (Math_round (fl x)) (Fin 10) =
          (if K = 0 \<and> m < 0 then NegZero else Fin (10 * real_of_int K))"
  proof (cases "K = 0")
    case True
    then show ?thesis by (simp add: rnd js_multiply_def signed_zero_def)
  next
    case False
    then have "K * 10 \<noteq> 0" by simp
    moreover have "\<bar>K * 10\<bar> < 2 ^ 53" using Kb by simp
    ultimately have "fl (real_of_int (K * 10)) = Fin (real_of_int (K * 10))" by (rule fl_of_int)
    with False show ?thesis by (simp add: rnd js_multiply_def mult.commute)
  qed
  then show ?thesis by (simp add: roundToNearestTen_def div K_def x_def)
qed

text \<open>The equations that evaluate the model on numerals.\<close>

lemmas fl_eval = fl_def ulp_def expo_def ilog2_def rne_def bitlen_def compute_floorlog Let_def
lemmas r10_eval = roundToNearestTen_def js_divide_def js_multiply_def signed_zero_def signed_inf_def

lemma is_double_of_int:
  assumes "\<bar>n\<bar> < 2 ^ 53"
  shows "is_double (real_of_int n)"
proof (cases "n = 0")
  case True
  then show ?thesis by (simp add: is_double_def)
next
  case False
  define q where "q = real_of_int n"
  have "real_of_int \<bar>n\<bar> < 2 ^ 53" using assms by (metis of_int_less_iff of_int_numeral of_int_power)
  then have q53: "\<bar>q\<bar> < 2 ^ 53" by (simp add: q_def)
  then have "\<bar>q\<bar> < 2 powi (52 + 1)" by simp
  then have e52: "expo q \<le> 52" by (rule expo_le) simp
  have iu: "1 / ulp q = 2 ^ nat (52 - expo q)" unfolding ulp_def using e52 by (rule inv_ulp_grid)
  have "q / ulp q = q * (1 / ulp q)" by simp
  also have "\<dots> = q * 2 ^ nat (52 - expo q)" by (simp only: iu)
  also have "\<dots> = real_of_int (n * 2 ^ nat (52 - expo q))" by (simp add: q_def)
  finally have g: "q / ulp q = real_of_int (n * 2 ^ nat (52 - expo q))" .
  have "real_of_int \<lfloor>q / ulp q\<rfloor> = q / ulp q" by (simp only: g floor_of_int)
  moreover have "\<bar>q\<bar> < 2 ^ 1024" using q53 by simp
  ultimately show ?thesis unfolding q_def [symmetric] is_double_def by simp
qed

text \<open>From \<open>2\<^sup>5\<^sup>3\<close> on every Number is an even integer.\<close>

lemma odd_double_small:
  assumes "is_double (real_of_int n)" "odd n"
  shows "\<bar>n\<bar> < 2 ^ 53"
proof (rule ccontr)
  assume "\<not> \<bar>n\<bar> < 2 ^ 53"
  then have "2 ^ 53 \<le> \<bar>n\<bar>" by simp
  define q where "q = real_of_int n"
  have "2 ^ 53 \<le> real_of_int \<bar>n\<bar>" using \<open>2 ^ 53 \<le> \<bar>n\<bar>\<close> by (rule pow2_le_int)
  then have "2 powi 53 \<le> \<bar>q\<bar>" by (simp add: q_def)
  then have e: "53 \<le> expo q" by (rule expo_lower)
  define j where "j = nat (expo q - 53)"
  have "expo q - 52 = int (Suc j)" using e by (simp add: j_def)
  then have "ulp q = 2 powi (int (Suc j))" by (simp only: ulp_def)
  then have "ulp q = 2 ^ Suc j" by (simp only: power_int_of_nat)
  then have u: "ulp q = real_of_int (2 * 2 ^ j)" by simp
  define M where "M = \<lfloor>q / ulp q\<rfloor>"
  have "real_of_int M = q / ulp q" using assms(1) by (simp add: is_double_def M_def q_def)
  then have "q = real_of_int M * ulp q" using ulp_pos [of q] by (simp add: field_simps)
  then have "q = real_of_int M * real_of_int (2 * 2 ^ j)" by (simp only: u)
  then have "real_of_int n = real_of_int (M * (2 * 2 ^ j))" by (simp only: q_def of_int_mult)
  then have "n = M * (2 * 2 ^ j)" by (simp only: of_int_eq_iff)
  then have "even n" by simp
  with assms(2) show False by simp
qed

subsection \<open>The sign of the result\<close>

lemma fl_sign_pos:
  assumes "0 \<le> q"
  shows "fl q = PosInf \<or> (\<exists>r. fl q = Fin r \<and> 0 \<le> r)"
proof -
  define r where "r = real_of_int (rne (q / ulp q)) * ulp q"
  have "0 \<le> r" using rounded_ge_grid [of 0 q] assms by (simp add: r_def)
  then show ?thesis unfolding fl_def Let_def r_def [symmetric] using assms by simp
qed

lemma fl_sign_neg:
  assumes "q < 0"
  shows "fl q = NegInf \<or> fl q = NegZero \<or> (\<exists>r. fl q = Fin r \<and> r < 0)"
proof -
  define r where "r = real_of_int (rne (q / ulp q)) * ulp q"
  have "r \<le> 0" using rounded_le_grid [of q 0] assms by (simp add: r_def)
  then show ?thesis unfolding fl_def Let_def r_def [symmetric] using assms
    by (cases "r = 0") simp_all
qed

lemma fl_le_minus_one:
  assumes "q \<le> - 1"
  shows "fl q = NegInf \<or> (\<exists>r. fl q = Fin r \<and> r \<le> - 1)"
proof -
  have "2 powi 0 \<le> \<bar>q\<bar>" using assms by simp
  then have e0: "0 \<le> expo q" by (rule expo_lower)
  have "2 powi (- 1022) \<le> \<bar>q\<bar>" using assms powi_mono [of "- 1022" 0] by simp
  then have "2 powi (expo q) \<le> \<bar>q\<bar>" by (rule expo_bounds(1))
  then have q: "q \<le> - (2 powi (expo q))" using assms by simp
  have g: "real_of_int (- (2 ^ 52)) * ulp q = - (2 powi (expo q))"
    by (simp add: ulp_def power_int_diff)
  have "real_of_int (rne (q / ulp q)) * ulp q \<le> real_of_int (- (2 ^ 52)) * ulp q"
    using q by (intro rounded_le_grid) (simp only: g)
  also have "\<dots> \<le> - 1" using powi_mono [of 0 "expo q"] e0 by (simp only: g) simp
  finally have "real_of_int (rne (q / ulp q)) * ulp q \<le> - 1" .
  moreover define r where "r = real_of_int (rne (q / ulp q)) * ulp q"
  ultimately have "r \<le> - 1" by simp
  then show ?thesis unfolding fl_def Let_def r_def [symmetric] by simp
qed

lemma roundToNearestTen_NegZero: "roundToNearestTen NegZero = NegZero"
  by (simp add: r10_eval)

lemma roundToNearestTen_sign_nonneg:
  assumes "0 \<le> m"
  shows "roundToNearestTen (Fin m) = PosInf \<or> (\<exists>r. roundToNearestTen (Fin m) = Fin r \<and> 0 \<le> r)"
proof (cases "m = 0")
  case True
  then show ?thesis by (simp add: r10_eval)
next
  case False
  have div: "js_divide (Fin m) (Fin 10) = fl (m / 10)" using False by (simp add: js_divide_def)
  from assms have "0 \<le> m / 10" by simp
  then consider "fl (m / 10) = PosInf" | r where "fl (m / 10) = Fin r" "0 \<le> r"
    using fl_sign_pos by blast
  then show ?thesis
  proof cases
    case 1
    then show ?thesis by (simp add: roundToNearestTen_def div js_multiply_def signed_inf_def)
  next
    case 2
    define k where "k = \<lfloor>r + 1 / 2\<rfloor>"
    have k0: "0 \<le> k" using 2(2) unfolding k_def by linarith
    have rnd: "Math_round (fl (m / 10)) = Fin (real_of_int k)"
      using 2 by (simp add: k_def Let_def)
    show ?thesis
    proof (cases "k = 0")
      case True
      then show ?thesis by (simp add: roundToNearestTen_def div rnd js_multiply_def signed_zero_def)
    next
      case False
      have "0 \<le> real_of_int k * 10" using k0 by simp
      from fl_sign_pos [OF this] False show ?thesis
        by (simp add: roundToNearestTen_def div rnd js_multiply_def)
    qed
  qed
qed

lemma roundToNearestTen_sign_neg:
  assumes "m < 0"
  shows "roundToNearestTen (Fin m) = NegInf \<or> roundToNearestTen (Fin m) = NegZero \<or>
         (\<exists>r. roundToNearestTen (Fin m) = Fin r \<and> r < 0)"
proof -
  have div: "js_divide (Fin m) (Fin 10) = fl (m / 10)" using assms by (simp add: js_divide_def)
  from assms have "m / 10 < 0" by simp
  then consider "fl (m / 10) = NegInf" | "fl (m / 10) = NegZero"
    | r where "fl (m / 10) = Fin r" "r < 0"
    using fl_sign_neg by blast
  then show ?thesis
  proof cases
    case 1
    then show ?thesis by (simp add: roundToNearestTen_def div js_multiply_def signed_inf_def)
  next
    case 2
    then show ?thesis by (simp add: roundToNearestTen_def div js_multiply_def signed_zero_def)
  next
    case 3
    define k where "k = \<lfloor>r + 1 / 2\<rfloor>"
    have k0: "k \<le> 0" using 3(2) unfolding k_def by linarith
    have rnd: "Math_round (fl (m / 10)) = (if k = 0 then NegZero else Fin (real_of_int k))"
      using 3 by (simp add: k_def Let_def)
    show ?thesis
    proof (cases "k = 0")
      case True
      then show ?thesis by (simp add: roundToNearestTen_def div rnd js_multiply_def signed_zero_def)
    next
      case False
      with k0 have "real_of_int k * 10 < 0" by simp
      from fl_sign_neg [OF this] False show ?thesis
        by (simp add: roundToNearestTen_def div rnd js_multiply_def)
    qed
  qed
qed

lemma roundToNearestTen_large_negative:
  assumes "m \<le> - 10"
  shows "roundToNearestTen (Fin m) = NegInf \<or> (\<exists>r. roundToNearestTen (Fin m) = Fin r \<and> r \<le> - 1)"
proof -
  have div: "js_divide (Fin m) (Fin 10) = fl (m / 10)" using assms by (simp add: js_divide_def)
  from assms have "m / 10 \<le> - 1" by simp
  then consider "fl (m / 10) = NegInf" | r where "fl (m / 10) = Fin r" "r \<le> - 1"
    using fl_le_minus_one by blast
  then show ?thesis
  proof cases
    case 1
    then show ?thesis by (simp add: roundToNearestTen_def div js_multiply_def signed_inf_def)
  next
    case 2
    define k where "k = \<lfloor>r + 1 / 2\<rfloor>"
    have k0: "k \<le> - 1" using 2(2) unfolding k_def by linarith
    have rnd: "Math_round (fl (m / 10)) = Fin (real_of_int k)"
      using 2 k0 by (simp add: k_def Let_def)
    have "real_of_int k \<le> - 1" using k0 by linarith
    then have "real_of_int k * 10 \<le> - 1" by simp
    from fl_le_minus_one [OF this] k0 show ?thesis
      by (simp add: roundToNearestTen_def div rnd js_multiply_def)
  qed
qed

section \<open>The distance formatter: claims\<close>

text \<open>
  C4. The concrete cases: \<open>round(0) = 0\<close>, \<open>round(4) = 0\<close>, \<open>round(5) = 10\<close>,
  \<open>round(12) = 10\<close>, \<open>round(17) = 20\<close> and \<open>round(123.4) = 120\<close>. The literal \<open>123.4\<close>
  denotes the binary64 value nearest to it, \<open>fl (1234 / 10)\<close>.
\<close>

theorem roundToNearestTen_concrete_cases:
  "roundToNearestTen (Fin 0) = Fin 0 \<and>
   roundToNearestTen (Fin 4) = Fin 0 \<and>
   roundToNearestTen (Fin 5) = Fin 10 \<and>
   roundToNearestTen (Fin 12) = Fin 10 \<and>
   roundToNearestTen (Fin 17) = Fin 20 \<and>
   roundToNearestTen (fl (1234 / 10)) = Fin 120"
  by (simp add: r10_eval fl_eval)

text \<open>
  C3, as stated for every non-negative finite Number, fails at \<open>2\<^sup>5\<^sup>4\<close>: the quotient
  \<open>2\<^sup>5\<^sup>4 / 10\<close> is rounded to \<open>1801439850948198.5\<close>, \<open>Math.round\<close> gives
  \<open>1801439850948199\<close>, and ten times that is rounded to \<open>18014398509481992\<close>, which is
  not a multiple of ten and is 8 away from the input.
\<close>

theorem roundToNearestTen_at_2_54:
  "is_double 18014398509481984 \<and> (0::real) \<le> 18014398509481984 \<and>
   roundToNearestTen (Fin 18014398509481984) = Fin 18014398509481992 \<and>
   \<not> multiple_of_ten (roundToNearestTen (Fin 18014398509481984)) \<and>
   \<not> \<bar>mv (roundToNearestTen (Fin 18014398509481984)) - 18014398509481984\<bar> \<le> 5"
  by (simp add: is_double_def r10_eval fl_eval)

text \<open>
  C3, amended: for every finite Number \<open>m\<close> with \<open>0 \<le> m < 2\<^sup>5\<^sup>3\<close>, \<open>round(m)\<close> is a multiple
  of ten, \<open>|round(m) - m| \<le> 5\<close>, and the distance is 5 only when \<open>m\<close> is an odd multiple
  of 5.
\<close>

theorem roundToNearestTen_nearest_multiple:
  assumes "is_double m" "0 \<le> m" "m < 2 ^ 53"
  shows "multiple_of_ten (roundToNearestTen (Fin m)) \<and>
         \<bar>mv (roundToNearestTen (Fin m)) - m\<bar> \<le> 5 \<and>
         (\<bar>mv (roundToNearestTen (Fin m)) - m\<bar> = 5 \<longrightarrow> (\<exists>j::int. m = 10 * real_of_int j + 5))"
proof -
  define K where "K = \<lfloor>m / 10 + 1 / 2\<rfloor>"
  have r: "roundToNearestTen (Fin m) = Fin (10 * real_of_int K)"
    using roundToNearestTen_small [of m] assms by (simp add: K_def)
  have Kx: "real_of_int K \<le> m / 10 + 1 / 2" "m / 10 + 1 / 2 < real_of_int K + 1"
    unfolding K_def by linarith+
  have "\<lfloor>10 * real_of_int K / 10\<rfloor> = K" by simp
  then have a: "multiple_of_ten (Fin (10 * real_of_int K))" by simp
  have b: "\<bar>10 * real_of_int K - m\<bar> \<le> 5" using Kx by (simp add: abs_le_iff)
  have c: "\<exists>j::int. m = 10 * real_of_int j + 5" if "\<bar>10 * real_of_int K - m\<bar> = 5"
  proof -
    have "m = 10 * real_of_int (K - 1) + 5" using that Kx by (simp add: abs_if split: if_splits)
    then show ?thesis by blast
  qed
  from a b c show ?thesis by (simp add: r)
qed

theorem roundToNearestTen_nearest_multiple_witness:
  "is_double 347 \<and> (0::real) \<le> 347 \<and> (347::real) < 2 ^ 53 \<and>
   multiple_of_ten (roundToNearestTen (Fin 347)) \<and>
   \<bar>mv (roundToNearestTen (Fin 347)) - 347\<bar> \<le> 5"
proof -
  have h: "is_double 347" by (simp add: is_double_def fl_eval)
  show ?thesis using h roundToNearestTen_nearest_multiple [OF h] by simp
qed

text \<open>
  C5, as stated for every input, fails at \<open>2\<^sup>5\<^sup>5 + 8\<close>: the first application gives
  \<open>2\<^sup>5\<^sup>5 + 16\<close> and the second \<open>2\<^sup>5\<^sup>5 + 24\<close>.
\<close>

theorem roundToNearestTen_twice_at_2_55_plus_8:
  "is_double 36028797018963976 \<and>
   roundToNearestTen (Fin 36028797018963976) = Fin 36028797018963984 \<and>
   roundToNearestTen (roundToNearestTen (Fin 36028797018963976)) = Fin 36028797018963992 \<and>
   \<not> js_equal (roundToNearestTen (roundToNearestTen (Fin 36028797018963976)))
                (roundToNearestTen (Fin 36028797018963976))"
  by (simp add: is_double_def r10_eval fl_eval js_equal_def)

text \<open>
  C5, amended: for every finite Number \<open>m\<close> with \<open>|m| < 2\<^sup>5\<^sup>3\<close>,
  \<open>round(round(m)) == round(m)\<close>; the two are even the same value.
\<close>

theorem roundToNearestTen_idempotent_small:
  assumes "is_double m" "\<bar>m\<bar> < 2 ^ 53"
  shows "roundToNearestTen (roundToNearestTen (Fin m)) = roundToNearestTen (Fin m) \<and>
         js_equal (roundToNearestTen (roundToNearestTen (Fin m))) (roundToNearestTen (Fin m))"
proof -
  define K where "K = \<lfloor>m / 10 + 1 / 2\<rfloor>"
  have Kx: "real_of_int K \<le> m / 10 + 1 / 2" "m / 10 + 1 / 2 < real_of_int K + 1"
    unfolding K_def by linarith+
  have "real_of_int K < 900719925474100" "- 900719925474100 < real_of_int K"
    using Kx assms(2) by simp_all
  then have Kb: "K < 900719925474100" "- 900719925474100 < K" by simp_all
  have r: "roundToNearestTen (Fin m) = (if K = 0 \<and> m < 0 then NegZero else Fin (10 * real_of_int K))"
    using roundToNearestTen_small [OF assms] by (simp add: K_def)
  have idem: "roundToNearestTen (roundToNearestTen (Fin m)) = roundToNearestTen (Fin m)"
  proof (cases "K = 0 \<and> m < 0")
    case True
    then show ?thesis by (simp add: r roundToNearestTen_NegZero)
  next
    case False
    have "\<bar>10 * K\<bar> < 2 ^ 53" using Kb by simp
    then have d: "is_double (real_of_int (10 * K))" by (rule is_double_of_int)
    have s: "\<bar>real_of_int (10 * K)\<bar> < 2 ^ 53" using Kb by simp
    have "\<lfloor>real_of_int (10 * K) / 10 + 1 / 2\<rfloor> = K" by simp
    moreover have "real_of_int (10 * K) < 0 \<Longrightarrow> K \<noteq> 0" by auto
    ultimately have "roundToNearestTen (Fin (real_of_int (10 * K))) = Fin (10 * real_of_int K)"
      using roundToNearestTen_small [OF d s] by auto
    moreover have "roundToNearestTen (Fin m) = Fin (10 * real_of_int K)"
      using False by (auto simp add: r)
    ultimately show ?thesis by simp
  qed
  have "roundToNearestTen (Fin m) \<noteq> NaN" by (simp add: r)
  with idem show ?thesis by (simp add: js_equal_def)
qed

theorem roundToNearestTen_idempotent_small_witness:
  "is_double 347 \<and> \<bar>347 :: real\<bar> < 2 ^ 53 \<and>
   roundToNearestTen (roundToNearestTen (Fin 347)) = roundToNearestTen (Fin 347)"
proof -
  have h: "is_double 347" by (simp add: is_double_def fl_eval)
  show ?thesis using h roundToNearestTen_idempotent_small [OF h] by simp
qed

text \<open>
  C7, as stated for every finite distance, fails at \<open>2\<^sup>5\<^sup>6\<close>: the result is \<open>2\<^sup>5\<^sup>6\<close>
  itself, which ends in the digit 6.
\<close>

theorem roundToNearestTen_at_2_56:
  "is_double 72057594037927936 \<and>
   roundToNearestTen (Fin 72057594037927936) = Fin 72057594037927936 \<and>
   \<not> multiple_of_ten (roundToNearestTen (Fin 72057594037927936))"
  by (simp add: is_double_def r10_eval fl_eval)

text \<open>
  C7, amended: for every finite Number \<open>m\<close>, \<open>round(m)\<close> has the sign of \<open>m\<close> (it is a
  Number that is not below zero when \<open>m \<ge> 0\<close>, and not above zero when \<open>m < 0\<close>), and
  when \<open>|m| < 2\<^sup>5\<^sup>3\<close> it is a multiple of ten.
\<close>

theorem roundToNearestTen_multiple_and_sign:
  assumes "is_double m"
  shows "(\<bar>m\<bar> < 2 ^ 53 \<longrightarrow> multiple_of_ten (roundToNearestTen (Fin m))) \<and>
         (0 \<le> m \<longrightarrow> roundToNearestTen (Fin m) \<noteq> NaN \<and> \<not> js_less (roundToNearestTen (Fin m)) (Fin 0)) \<and>
         (m < 0 \<longrightarrow> roundToNearestTen (Fin m) \<noteq> NaN \<and> \<not> js_less (Fin 0) (roundToNearestTen (Fin m)))"
proof -
  have a: "multiple_of_ten (roundToNearestTen (Fin m))" if "\<bar>m\<bar> < 2 ^ 53"
  proof -
    define K where "K = \<lfloor>m / 10 + 1 / 2\<rfloor>"
    have "\<lfloor>10 * real_of_int K / 10\<rfloor> = K" by simp
    then have "multiple_of_ten (Fin (10 * real_of_int K))" by simp
    then show ?thesis using roundToNearestTen_small [OF assms that] by (simp add: K_def)
  qed
  have b: "roundToNearestTen (Fin m) \<noteq> NaN \<and> \<not> js_less (roundToNearestTen (Fin m)) (Fin 0)"
    if "0 \<le> m"
    using roundToNearestTen_sign_nonneg [OF that] by auto
  have c: "roundToNearestTen (Fin m) \<noteq> NaN \<and> \<not> js_less (Fin 0) (roundToNearestTen (Fin m))"
    if "m < 0"
    using roundToNearestTen_sign_neg [OF that] by auto
  from a b c show ?thesis by blast
qed

theorem roundToNearestTen_multiple_and_sign_witness:
  "is_double (- 17) \<and> \<bar>- 17 :: real\<bar> < 2 ^ 53 \<and> (- 17 :: real) < 0 \<and>
   multiple_of_ten (roundToNearestTen (Fin (- 17))) \<and>
   \<not> js_less (Fin 0) (roundToNearestTen (Fin (- 17))) \<and>
   is_double 17 \<and> (0 :: real) \<le> 17 \<and> \<not> js_less (roundToNearestTen (Fin 17)) (Fin 0)"
proof -
  have h: "is_double (- 17)" "is_double 17" by (simp_all add: is_double_def fl_eval)
  show ?thesis
    using h roundToNearestTen_multiple_and_sign [OF h(1)] roundToNearestTen_multiple_and_sign [OF h(2)]
    by simp
qed

text \<open>
  C8. The formatter has no guard and no clamp: \<open>round(NaN)\<close> is \<open>NaN\<close>, \<open>-\<infinity>\<close> is
  returned as it is, every negative finite Number below \<open>-5\<close> gives a negative result
  (a negative Number or \<open>-\<infinity>\<close>, never zero), and for \<open>-2\<^sup>5\<^sup>3 < m < 0\<close> the result
  is the arithmetic value \<open>10 * round (m / 10)\<close>, where \<open>round\<close> rounds halves up and
  the zero is \<open>-0\<close>. The function returns a Number for every Number: it has no error
  result.
\<close>

theorem roundToNearestTen_unguarded:
  "roundToNearestTen NaN = NaN \<and>
   roundToNearestTen NegInf = NegInf \<and>
   (is_double m \<longrightarrow> m < - 5 \<longrightarrow> js_less (roundToNearestTen (Fin m)) (Fin 0)) \<and>
   (is_double m \<longrightarrow> - (2 ^ 53) < m \<longrightarrow> m < 0 \<longrightarrow>
      roundToNearestTen (Fin m) =
        (if - 5 \<le> m then NegZero else Fin (10 * real_of_int (round (m / 10)))))"
proof -
  have a: "roundToNearestTen NaN = NaN" "roundToNearestTen NegInf = NegInf"
    by (simp_all add: r10_eval)
  have small: "roundToNearestTen (Fin m) =
      (if - 5 \<le> m then NegZero else Fin (10 * real_of_int (round (m / 10))))"
    if "is_double m" "- (2 ^ 53) < m" "m < 0"
  proof -
    have "\<bar>m\<bar> < 2 ^ 53" using that by simp
    moreover have "\<lfloor>m / 10 + 1 / 2\<rfloor> = 0 \<longleftrightarrow> - 5 \<le> m" using that(3) by (auto simp add: floor_eq_iff)
    ultimately show ?thesis using roundToNearestTen_small [of m] that by (simp add: round_def)
  qed
  have neg: "js_less (roundToNearestTen (Fin m)) (Fin 0)" if "is_double m" "m < - 5"
  proof (cases "- (2 ^ 53) < m")
    case True
    have "round (m / 10) < 0" using that(2) unfolding round_def by linarith
    then have "10 * real_of_int (round (m / 10)) < 0" by simp
    then show ?thesis using small [OF that(1) True] that(2) by simp
  next
    case False
    then have "m \<le> - 10" by simp
    from roundToNearestTen_large_negative [OF this] show ?thesis by auto
  qed
  from a small neg show ?thesis by blast
qed

theorem roundToNearestTen_unguarded_witness:
  "is_double (- 17) \<and> (- 17 :: real) < - 5 \<and> - (2 ^ 53) < (- 17 :: real) \<and> (- 17 :: real) < 0 \<and>
   js_less (roundToNearestTen (Fin (- 17))) (Fin 0) \<and>
   roundToNearestTen (Fin (- 17)) = Fin (- 20)"
proof -
  have h: "is_double (- 17)" by (simp add: is_double_def fl_eval)
  have r: "round (- 17 / 10 :: real) = - 2" by (simp add: round_def)
  show ?thesis using h r roundToNearestTen_unguarded [of "- 17"] by simp
qed

text \<open>
  C9. Ties go toward \<open>+\<infinity>\<close>: every non-negative odd multiple of 5 that is a Number is
  rounded up to the next multiple of ten, and every negative one is rounded up as well
  (\<open>-5\<close> to \<open>-0\<close>, which \<open>==\<close> reads as 0 and the template prints as 0; \<open>-15\<close> to
  \<open>-10\<close>). Rounding halves away from zero would give \<open>-10\<close> for \<open>-5\<close>, and rounding
  halves to even would give \<open>0\<close> for \<open>5\<close>.
\<close>

theorem roundToNearestTen_ties_toward_positive_infinity:
  fixes k :: nat
  shows "(is_double (10 * real k + 5) \<longrightarrow>
            roundToNearestTen (Fin (10 * real k + 5)) = Fin (10 * real k + 10)) \<and>
         (is_double (- (10 * real k + 5)) \<longrightarrow>
            roundToNearestTen (Fin (- (10 * real k + 5))) =
              (if k = 0 then NegZero else Fin (- (10 * real k))))"
proof -
  define n where "n = 10 * int k + 5"
  have odd: "odd n" "odd (- n)" by (simp_all add: n_def)
  have n: "real_of_int n = 10 * real k + 5" "real_of_int (- n) = - (10 * real k + 5)"
    by (simp_all add: n_def)
  have up: "roundToNearestTen (Fin (10 * real k + 5)) = Fin (10 * real k + 10)"
    if d: "is_double (10 * real k + 5)"
  proof -
    have "is_double (real_of_int n)" using d by (simp only: n)
    then have "\<bar>n\<bar> < 2 ^ 53" using odd(1) by (rule odd_double_small)
    then have "real_of_int \<bar>n\<bar> < 2 ^ 53" by (metis of_int_less_iff of_int_numeral of_int_power)
    then have s: "\<bar>10 * real k + 5\<bar> < 2 ^ 53" by (simp add: n_def)
    have "(10 * real k + 5) / 10 + 1 / 2 = real_of_int (int k + 1)" by (simp add: field_simps)
    then have "\<lfloor>(10 * real k + 5) / 10 + 1 / 2\<rfloor> = int k + 1" by (simp only: floor_of_int)
    then show ?thesis using roundToNearestTen_small [OF d s] by simp
  qed
  have down: "roundToNearestTen (Fin (- (10 * real k + 5))) =
      (if k = 0 then NegZero else Fin (- (10 * real k)))"
    if d: "is_double (- (10 * real k + 5))"
  proof -
    have "is_double (real_of_int (- n))" using d by (simp only: n)
    then have "\<bar>- n\<bar> < 2 ^ 53" using odd(2) by (rule odd_double_small)
    then have "real_of_int \<bar>- n\<bar> < 2 ^ 53" by (metis of_int_less_iff of_int_numeral of_int_power)
    then have s: "\<bar>- (10 * real k + 5)\<bar> < 2 ^ 53" by (simp add: n_def)
    have "- (10 * real k + 5) / 10 + 1 / 2 = real_of_int (- int k)" by (simp add: field_simps)
    then have "\<lfloor>- (10 * real k + 5) / 10 + 1 / 2\<rfloor> = - int k" by (simp only: floor_of_int)
    then show ?thesis using roundToNearestTen_small [OF d s] by simp
  qed
  from up down show ?thesis by blast
qed

theorem roundToNearestTen_ties_witness:
  "is_double 5 \<and> roundToNearestTen (Fin 5) = Fin 10 \<and>
   is_double 15 \<and> roundToNearestTen (Fin 15) = Fin 20 \<and>
   is_double (- 5) \<and> roundToNearestTen (Fin (- 5)) = NegZero \<and>
   js_equal (roundToNearestTen (Fin (- 5))) (Fin 0) \<and>
   is_double (- 15) \<and> roundToNearestTen (Fin (- 15)) = Fin (- 10)"
proof -
  have h: "is_double 5" "is_double 15" "is_double (- 5)" "is_double (- 15)"
    by (simp_all add: is_double_def fl_eval)
  show ?thesis
    using h roundToNearestTen_ties_toward_positive_infinity [of 0]
      roundToNearestTen_ties_toward_positive_infinity [of 1]
    by (simp add: js_equal_def)
qed

section \<open>The render method: claims\<close>

text \<open>
  C1. For every input that has no \<open>Navigating\<close> property (\<open>null\<close>, \<open>undefined\<close>, a
  primitive value, or an object of another variant), \<open>render\<close> returns nothing: no
  template is produced, so nothing is handed to the \<open>maneuver-image\<close> element or to the
  paragraphs, and no error is thrown.
\<close>

theorem render_nothing_without_Navigating:
  assumes "\<not> has_property tripState ''Navigating''"
  shows "render S tripState = Inr None"
proof -
  have "optional_get tripState ''Navigating'' = Undefined"
  proof (cases tripState)
    case (Object fs)
    with assms have "map_of fs ''Navigating'' = None" by (simp add: map_of_eq_None_iff)
    with Object show ?thesis by simp
  qed simp_all
  then show ?thesis by (simp add: render_def)
qed

theorem render_nothing_without_Navigating_witness:
  "\<not> has_property Null ''Navigating'' \<and> render (\<lambda>s. NaN) Null = Inr None \<and>
   \<not> has_property (Object [(''Arrived'', Object [])]) ''Navigating'' \<and>
   render (\<lambda>s. NaN) (Object [(''Arrived'', Object [])]) = Inr None"
  using render_nothing_without_Navigating [of Null "\<lambda>s. NaN"]
    render_nothing_without_Navigating [of "Object [(''Arrived'', Object [])]" "\<lambda>s. NaN"]
  by simp

text \<open>
  A value that can be read two levels deep is an object, hence truthy.
\<close>

lemma get_Inr_truthy:
  assumes "get v k = Inr w" "get w k' = Inr u" "get u k'' = Inr t"
  shows "ToBoolean (optional_get v k)"
  using assms by (cases v; cases w) (auto split: option.splits)

text \<open>
  C2. For every trip state whose \<open>Navigating\<close> payload can be read along
  \<open>visualInstruction.primaryContent.text\<close> and \<open>progress.distanceToNextManeuver\<close> (the
  shape of the data model), \<open>render\<close> produces the template; its text is the value of
  \<open>visualInstruction.primaryContent.text\<close> as it is, whatever that value is, and the
  \<open>maneuver-image\<close> element receives the value of \<open>visualInstruction\<close> as it is.
\<close>

theorem render_text_verbatim:
  assumes "path tripState [''Navigating'', ''visualInstruction''] = Inr vi"
    and "path tripState [''Navigating'', ''visualInstruction'', ''primaryContent'', ''text''] = Inr txt"
    and "path tripState [''Navigating'', ''progress'', ''distanceToNextManeuver''] = Inr d"
    and "ToNumber S d = Inr meters"
  shows "render S tripState =
           Inr (Some \<lparr>maneuver_image = vi, instruction_text = txt,
                      rounded_distance = roundToNearestTen meters\<rparr>)"
proof -
  obtain nav where nav: "get tripState ''Navigating'' = Inr nav"
    using assms(1) by (cases "get tripState ''Navigating''") (simp_all add: and_then_def)
  have vi: "get nav ''visualInstruction'' = Inr vi"
    using assms(1) nav by (cases "get nav ''visualInstruction''") (simp_all add: and_then_def)
  obtain pc where pc: "get vi ''primaryContent'' = Inr pc"
    using assms(2) nav vi by (cases "get vi ''primaryContent''") (simp_all add: and_then_def)
  have tx: "get pc ''text'' = Inr txt"
    using assms(2) nav vi pc by (cases "get pc ''text''") (simp_all add: and_then_def)
  obtain progress where progress: "get nav ''progress'' = Inr progress"
    using assms(3) nav by (cases "get nav ''progress''") (simp_all add: and_then_def)
  have d: "get progress ''distanceToNextManeuver'' = Inr d"
    using assms(3) nav progress
    by (cases "get progress ''distanceToNextManeuver''") (simp_all add: and_then_def)
  have "ToBoolean (optional_get tripState ''Navigating'')"
    using nav vi pc by (rule get_Inr_truthy)
  then show ?thesis
    using nav vi pc tx progress d assms(4) by (simp add: render_def and_then_def)
qed

theorem render_text_verbatim_witness:
  "path (Object [(''Navigating'', Object
       [(''visualInstruction'', Object [(''primaryContent'', Object [(''text'', String ''Keep left'')])]),
        (''progress'', Object [(''distanceToNextManeuver'', Number (Fin 12))])])])
     [''Navigating'', ''visualInstruction'']
     = Inr (Object [(''primaryContent'', Object [(''text'', String ''Keep left'')])]) \<and>
   path (Object [(''Navigating'', Object
       [(''visualInstruction'', Object [(''primaryContent'', Object [(''text'', String ''Keep left'')])]),
        (''progress'', Object [(''distanceToNextManeuver'', Number (Fin 12))])])])
     [''Navigating'', ''visualInstruction'', ''primaryContent'', ''text'']
     = Inr (String ''Keep left'') \<and>
   path (Object [(''Navigating'', Object
       [(''visualInstruction'', Object [(''primaryContent'', Object [(''text'', String ''Keep left'')])]),
        (''progress'', Object [(''distanceToNextManeuver'', Number (Fin 12))])])])
     [''Navigating'', ''progress'', ''distanceToNextManeuver'']
     = Inr (Number (Fin 12)) \<and>
   ToNumber (\<lambda>s. NaN) (Number (Fin 12)) = Inr (Fin 12) \<and>
   render (\<lambda>s. NaN) (Object [(''Navigating'', Object
       [(''visualInstruction'', Object [(''primaryContent'', Object [(''text'', String ''Keep left'')])]),
        (''progress'', Object [(''distanceToNextManeuver'', Number (Fin 12))])])])
     = Inr (Some \<lparr>maneuver_image = Object [(''primaryContent'', Object [(''text'', String ''Keep left'')])],
                 instruction_text = String ''Keep left'',
                 rounded_distance = roundToNearestTen (Fin 12)\<rparr>)"
  using render_text_verbatim [of
      "Object [(''Navigating'', Object
       [(''visualInstruction'', Object [(''primaryContent'', Object [(''text'', String ''Keep left'')])]),
        (''progress'', Object [(''distanceToNextManeuver'', Number (Fin 12))])])]"
      "Object [(''primaryContent'', Object [(''text'', String ''Keep left'')])]"
      "String ''Keep left''" "Number (Fin 12)" "\<lambda>s. NaN" "Fin 12"]
  by (simp add: and_then_def)

text \<open>
  C6. End to end: the navigating state with text \<open>Turn right\<close> and distance 347 gives
  the template with that text, the distance 350 and the given \<open>visualInstruction\<close>;
  \<open>{Idle: {}}\<close> and \<open>null\<close> give nothing.
\<close>

theorem render_end_to_end:
  "render S (Object [(''Navigating'', Object
       [(''visualInstruction'', Object [(''primaryContent'', Object [(''text'', String ''Turn right'')])]),
        (''progress'', Object [(''distanceToNextManeuver'', Number (Fin 347))])])])
     = Inr (Some \<lparr>maneuver_image = Object [(''primaryContent'', Object [(''text'', String ''Turn right'')])],
                 instruction_text = String ''Turn right'',
                 rounded_distance = Fin 350\<rparr>) \<and>
   render S (Object [(''Idle'', Object [])]) = Inr None \<and>
   render S Null = Inr None"
  by (simp add: render_def and_then_def r10_eval fl_eval)

text \<open>
  C10. The test is the truthiness of the \<open>Navigating\<close> property, not its presence: an
  object that has the property renders nothing exactly when the value of the property is
  falsy; in particular when it is \<open>null\<close>, \<open>undefined\<close>, \<open>0\<close>, \<open>false\<close> or the empty
  string, as for inputs without the property.
\<close>

theorem render_decided_by_truthiness:
  assumes "map_of tripState ''Navigating'' = Some v"
  shows "has_property (Object tripState) ''Navigating'' \<and>
         (render S (Object tripState) = Inr None \<longleftrightarrow> \<not> ToBoolean v) \<and>
         (v \<in> {Null, Undefined, Number (Fin 0), Boolean False, String ''''} \<longrightarrow>
            render S (Object tripState) = Inr None)"
proof -
  have p: "''Navigating'' \<in> fst ` set tripState"
    using assms by (metis map_of_eq_None_iff option.distinct(1))
  have f: "render S (Object tripState) = Inr None" if "\<not> ToBoolean v"
    using that assms by (simp add: render_def)
  have t: "render S (Object tripState) \<noteq> Inr None" if "ToBoolean v"
    using that assms by (simp add: render_def and_then_def split: sum.splits)
  have "\<not> ToBoolean v" if "v \<in> {Null, Undefined, Number (Fin 0), Boolean False, String ''''}"
    using that by auto
  with p f t show ?thesis by auto
qed

theorem render_decided_by_truthiness_witness:
  "map_of [(''Navigating'', Number (Fin 0))] ''Navigating'' = Some (Number (Fin 0)) \<and>
   Number (Fin 0) \<in> {Null, Undefined, Number (Fin 0), Boolean False, String ''''} \<and>
   has_property (Object [(''Navigating'', Number (Fin 0))]) ''Navigating'' \<and>
   render (\<lambda>s. NaN) (Object [(''Navigating'', Number (Fin 0))]) = Inr None"
  using render_decided_by_truthiness
    [of "[(''Navigating'', Number (Fin 0))]" "Number (Fin 0)" "\<lambda>s. NaN"]
  by simp

end
